theory Spec2Isabelle
  imports Main
begin

unbundle bit_operations_syntax

section \<open>Text, matches and Python errors\<close>

text \<open>
  The tagging builder works on Python strings. They are modelled as \<open>string\<close>, one
  \<open>char\<close> per code point, which covers the code points below 256. The exceptions
  that the modelled code can meet are values of \<open>error\<close>.
\<close>

datatype error = TypeError | IndexError | ValueError | KeyError | ReError

type_synonym page = "nat \<times> string"

type_synonym 'v dict = "(string \<times> 'v) list"

text \<open>
  A Python \<open>dict\<close> keeps its keys in insertion order; assigning to a key that is
  present replaces the value where it stands.
\<close>

fun dict_set :: "string \<Rightarrow> 'v \<Rightarrow> 'v dict \<Rightarrow> 'v dict" where
  "dict_set k v [] = [(k, v)]"
| "dict_set k v (p # ps) = (if fst p = k then (k, v) # ps else p # dict_set k v ps)"

definition setdefault :: "string \<Rightarrow> 'v \<Rightarrow> 'v dict \<Rightarrow> 'v dict" where
  "setdefault k v d = (if k \<in> fst ` set d then d else d @ [(k, v)])"

text \<open>
  What \<open>re\<close> hands back for a match: \<open>m.group(0)\<close>, \<open>m.groups()\<close> (a group that took
  no part in the match is \<open>None\<close>) and the items of \<open>m.groupdict()\<close>.
\<close>

record match =
  whole :: string
  groups :: "string option list"
  groupdict :: "string option dict"

definition group_of :: "match \<Rightarrow> nat \<Rightarrow> error + string option" where
  "group_of m i =
     (if i = 0 then Inr (Some (whole m))
      else if i \<le> length (groups m) then Inr (groups m ! (i - 1))
      else Inl IndexError)"

subsection \<open>\<open>clean_text\<close>\<close>

text \<open>
  \<open>\s\<close> in a \<open>str\<close> pattern and \<open>str.strip()\<close> use the same whitespace test; below 256
  it holds of 9..13, 28..32, 133 and 160.
\<close>

definition is_space :: "char \<Rightarrow> bool" where
  "is_space c =
     (let n = (of_char c :: nat)
      in (9 \<le> n \<and> n \<le> 13) \<or> (28 \<le> n \<and> n \<le> 32) \<or> n = 133 \<or> n = 160)"

text \<open>\<open>re.sub(r"\s+", " ", s)\<close>: every maximal run of whitespace becomes one blank.\<close>

function sub_spaces :: "string \<Rightarrow> string" where
  "sub_spaces [] = []"
| "sub_spaces (c # cs) =
     (if is_space c then CHR '' '' # sub_spaces (dropWhile is_space cs)
      else c # sub_spaces cs)"
  by pat_completeness auto
termination
  by (relation "measure length") (auto simp: le_imp_less_Suc length_dropWhile_le)

definition strip :: "string \<Rightarrow> string" where
  "strip s = rev (dropWhile is_space (rev (dropWhile is_space s)))"

fun clean_text :: "string option \<Rightarrow> string" where
  "clean_text None = []"
| "clean_text (Some s) = strip (sub_spaces s)"

subsection \<open>\<open>render_value\<close>\<close>

fun digit_char :: "nat \<Rightarrow> char" where
  "digit_char n = char_of (48 + n)"

function str_nat :: "nat \<Rightarrow> string" where
  "str_nat n = (if n < 10 then [digit_char n] else str_nat (n div 10) @ [digit_char (n mod 10)])"
  by pat_completeness auto
termination
  by (relation "measure id") auto

declare str_nat.simps [simp del]

text \<open>
  The dictionary of lines 178 to 185: the groups under their zero-based position
  written in decimal, then the named groups, each value cleaned.
\<close>

definition fmt_dict :: "match \<Rightarrow> string dict" where
  "fmt_dict m =
     (let positional = fold (\<lambda>(i, g). dict_set (str_nat i) (clean_text g))
                            (enumerate 0 (groups m)) []
      in fold (\<lambda>(k, v). dict_set k (clean_text v)) (groupdict m) positional)"

text \<open>
  \<open>s.format()\<close> with no argument at all. Literal text is copied and a doubled brace
  gives one brace. Any replacement field has nothing to look its name up in
  (IndexError for an empty or numeric name, KeyError for any other), and a single brace
  that opens or closes no field is a ValueError; whatever the exception, the call
  yields no string.
\<close>

fun format_noargs :: "string \<Rightarrow> string option" where
  "format_noargs [] = Some []"
| "format_noargs [c] = (if c = CHR ''{'' \<or> c = CHR ''}'' then None else Some [c])"
| "format_noargs (c # d # cs) =
     (if c = CHR ''{'' \<or> c = CHR ''}''
      then (if d = c then map_option ((#) c) (format_noargs cs) else None)
      else map_option ((#) c) (format_noargs (d # cs)))"

text \<open>
  Line 187 is \<open>value_expr.format(**fmt_dict, **{str(k): v for k, v in fmt_dict.items()})\<close>.
  The keys of \<open>fmt_dict\<close> are strings, so the second dictionary has the very keys of
  the first. A call that unpacks two dictionaries sharing a key raises TypeError before
  the callee runs; only when both are empty does \<open>format\<close> run, and then with no
  argument.
\<close>

definition format_call :: "string \<Rightarrow> string dict \<Rightarrow> error + string" where
  "format_call value_expr d =
     (let d2 = map (\<lambda>(k, v). (k, v)) d
      in if fst ` set d \<inter> fst ` set d2 \<noteq> {} then Inl TypeError
         else (case format_noargs value_expr of
                 None \<Rightarrow> Inl ValueError
               | Some s \<Rightarrow> Inr s))"

text \<open>The \<open>except\<close> branch of line 190.\<close>

definition fallback_value :: "match \<Rightarrow> string" where
  "fallback_value m =
     (case (if groups m \<noteq> [] then group_of m 1 else group_of m 0) of
        Inr g \<Rightarrow> clean_text g
      | Inl e \<Rightarrow> [])"

definition render_value :: "string \<Rightarrow> match \<Rightarrow> string" where
  "render_value value_expr m =
     (case format_call value_expr (fmt_dict m) of
        Inr s \<Rightarrow> s
      | Inl e \<Rightarrow> fallback_value m)"

section \<open>The regular-expression library\<close>

text \<open>
  The module \<open>re\<close> is not part of the program. Everything the program asks of it is
  taken as a parameter: the attribute table that \<open>getattr(re, name, 0)\<close> reads, and
  \<open>re.compile\<close>, which raises or gives a pattern object with its \<open>search\<close> and
  \<open>finditer\<close>. An attribute is either a value that \<open>|\<close> accepts beside an integer (the
  flags are such) or any other object (a function, a class, a string).
\<close>

datatype attr = IntLike nat | Other

record pattern_obj =
  search :: "string \<Rightarrow> match option"
  finditer :: "string \<Rightarrow> match list"

record re_module =
  re_getattr :: "string \<Rightarrow> attr option"
  re_compile :: "string \<Rightarrow> nat \<Rightarrow> error + pattern_obj"

definition IGNORECASE :: nat where "IGNORECASE = 2"
definition MULTILINE :: nat where "MULTILINE = 8"
definition DOTALL :: nat where "DOTALL = 16"

subsection \<open>\<open>find_first\<close> and \<open>find_all\<close>\<close>

fun first_hit :: "pattern_obj \<Rightarrow> page list \<Rightarrow> (nat \<times> match) option" where
  "first_hit rx [] = None"
| "first_hit rx ((pn, text) # ps) =
     (case search rx text of
        Some m \<Rightarrow> Some (pn, m)
      | None \<Rightarrow> first_hit rx ps)"

definition find_first ::
  "re_module \<Rightarrow> string \<Rightarrow> page list \<Rightarrow> nat \<Rightarrow> error + (nat \<times> match) option" where
  "find_first re pattern pages flags =
     (case re_compile re pattern flags of
        Inl e \<Rightarrow> Inl e
      | Inr rx \<Rightarrow> Inr (first_hit rx pages))"

fun all_hits :: "pattern_obj \<Rightarrow> page list \<Rightarrow> (nat \<times> match) list" where
  "all_hits rx [] = []"
| "all_hits rx ((pn, text) # ps) = map (Pair pn) (finditer rx text) @ all_hits rx ps"

definition find_all ::
  "re_module \<Rightarrow> string \<Rightarrow> page list \<Rightarrow> nat \<Rightarrow> error + (nat \<times> match) list" where
  "find_all re pattern pages flags =
     (case re_compile re pattern flags of
        Inl e \<Rightarrow> Inl e
      | Inr rx \<Rightarrow> Inr (all_hits rx pages))"

section \<open>Extraction directives\<close>

text \<open>
  A directive is a dictionary read from the rules file; each key may be missing, and
  \<open>ext.get(key, default)\<close> supplies the default then.
\<close>

record extractor =
  ext_section :: "string option"
  ext_clause :: "string option"
  ext_parameter :: "string option"
  ext_unit :: "string option"
  ext_notes :: "string option"
  ext_mode :: "string option"
  ext_pattern :: "string option"
  ext_value_expr :: "string option"
  ext_flags :: "string list option"

definition get :: "'a option \<Rightarrow> 'a \<Rightarrow> 'a" where
  "get v dflt = (case v of None \<Rightarrow> dflt | Some x \<Rightarrow> x)"

record tag_row =
  Section :: string
  ClauseRef :: string
  Parameter :: string
  Value :: string
  Unit :: string
  Notes :: string
  SourcePage :: nat

text \<open>Lines 159 to 161: \<open>fl |= getattr(re, f, 0)\<close> for each name of the flag list.\<close>

fun compile_flags :: "re_module \<Rightarrow> string list \<Rightarrow> nat \<Rightarrow> error + nat" where
  "compile_flags re [] fl = Inr fl"
| "compile_flags re (f # fs) fl =
     (case re_getattr re f of
        None \<Rightarrow> compile_flags re fs (fl OR 0)
      | Some (IntLike n) \<Rightarrow> compile_flags re fs (fl OR n)
      | Some Other \<Rightarrow> Inl TypeError)"

text \<open>The body of the loop of \<open>run_extractors\<close>: the rows one directive adds.\<close>

definition extract_one :: "re_module \<Rightarrow> page list \<Rightarrow> extractor \<Rightarrow> error + tag_row list" where
  "extract_one re pages ext =
     (let section = get (ext_section ext) ''General'';
          clause = get (ext_clause ext) [];
          parameter = get (ext_parameter ext) [];
          unit = get (ext_unit ext) [];
          notes = get (ext_notes ext) [];
          mode = get (ext_mode ext) ''first'';
          pattern = get (ext_pattern ext) [];
          value_expr = get (ext_value_expr ext) ''{0}'';
          flags_list = get (ext_flags ext) [''IGNORECASE''];
          row = (\<lambda>pn m. \<lparr>Section = section, ClauseRef = clause, Parameter = parameter,
                           Value = render_value value_expr m, Unit = unit, Notes = notes,
                           SourcePage = pn\<rparr>)
      in case compile_flags re flags_list 0 of
           Inl e \<Rightarrow> Inl e
         | Inr fl \<Rightarrow>
             if mode = ''all''
             then (case find_all re pattern pages fl of
                     Inl e \<Rightarrow> Inl e
                   | Inr hits \<Rightarrow> Inr (map (\<lambda>(pn, m). row pn m) hits))
             else (case find_first re pattern pages fl of
                     Inl e \<Rightarrow> Inl e
                   | Inr None \<Rightarrow> Inr []
                   | Inr (Some (pn, m)) \<Rightarrow> Inr [row pn m]))"

fun extractors_loop ::
  "re_module \<Rightarrow> page list \<Rightarrow> extractor list \<Rightarrow> tag_row list \<Rightarrow> error + tag_row list" where
  "extractors_loop re pages [] results = Inr results"
| "extractors_loop re pages (ext # exts) results =
     (case extract_one re pages ext of
        Inl e \<Rightarrow> Inl e
      | Inr rows \<Rightarrow> extractors_loop re pages exts (results @ rows))"

definition run_extractors ::
  "re_module \<Rightarrow> page list \<Rightarrow> extractor list \<Rightarrow> error + tag_row list" where
  "run_extractors re pages extractors = extractors_loop re pages extractors []"

section \<open>Header fields and the BID_INFO table\<close>

text \<open>
  Lines 287 to 295 of \<open>main\<close>. \<open>bid_info_map\<close> and \<open>defaults\<close> are dictionaries of the
  rules file, walked in their order.
\<close>

fun header_loop ::
  "re_module \<Rightarrow> page list \<Rightarrow> string dict \<Rightarrow> string dict \<Rightarrow> error + string dict" where
  "header_loop re pages [] vals = Inr vals"
| "header_loop re pages ((field, pattern) # rest) vals =
     (case find_first re pattern pages (IGNORECASE OR DOTALL OR MULTILINE) of
        Inl e \<Rightarrow> Inl e
      | Inr None \<Rightarrow> header_loop re pages rest (dict_set field [] vals)
      | Inr (Some (pn, m)) \<Rightarrow>
          (case group_of m 1 of
             Inl e \<Rightarrow> Inl e
           | Inr g \<Rightarrow> header_loop re pages rest (dict_set field (clean_text g) vals)))"

definition apply_defaults :: "string dict \<Rightarrow> string dict \<Rightarrow> string dict" where
  "apply_defaults defaults vals = fold (\<lambda>(k, v). setdefault k v) defaults vals"

definition bid_info_values ::
  "re_module \<Rightarrow> page list \<Rightarrow> string dict \<Rightarrow> string dict \<Rightarrow> error + string dict" where
  "bid_info_values re pages bid_info_map defaults =
     (case header_loop re pages bid_info_map [] of
        Inl e \<Rightarrow> Inl e
      | Inr vals \<Rightarrow> Inr (apply_defaults defaults vals))"

text \<open>
  The BID_INFO frame has the columns Field and Value and the default index; it is the
  list of its rows. An existing field has the value of every row that carries it
  replaced; a new field gets a row at the end. An empty frame is replaced by a fresh
  empty one.
\<close>

type_synonym bid_info = "(string \<times> string) list"

definition upsert_row :: "string \<Rightarrow> string \<Rightarrow> bid_info \<Rightarrow> bid_info" where
  "upsert_row k v df =
     (if k \<in> fst ` set df
      then map (\<lambda>(f, x). if f = k then (f, v) else (f, x)) df
      else df @ [(k, v)])"

definition upsert_bid_info :: "bid_info \<Rightarrow> string dict \<Rightarrow> bid_info" where
  "upsert_bid_info bid_info_df mapping =
     fold (\<lambda>(k, v). upsert_row k v) mapping (if bid_info_df = [] then [] else bid_info_df)"

definition df_bidinfo ::
  "re_module \<Rightarrow> page list \<Rightarrow> string dict \<Rightarrow> string dict \<Rightarrow> error + bid_info" where
  "df_bidinfo re pages bid_info_map defaults =
     (case bid_info_values re pages bid_info_map defaults of
        Inl e \<Rightarrow> Inl e
      | Inr vals \<Rightarrow> Inr (upsert_bid_info [] vals))"

section \<open>Amendment documents\<close>

text \<open>
  What the PDF reader gives for a file: opening it raises, or it has pages, each of
  which raises on extraction or yields a text or \<open>None\<close>.
\<close>

datatype page_src = ExtractRaises | Extracted "string option"

datatype pdf_src = OpenRaises | Opened "page_src list"

record pdf_file =
  file_name :: string
  file_src :: pdf_src

fun page_text :: "page_src \<Rightarrow> string" where
  "page_text ExtractRaises = []"
| "page_text (Extracted None) = []"
| "page_text (Extracted (Some t)) = t"

fun read_pdf_text_with_pages :: "pdf_src \<Rightarrow> page list" where
  "read_pdf_text_with_pages OpenRaises = []"
| "read_pdf_text_with_pages (Opened ps) = map (\<lambda>(i, p). (i + 1, page_text p)) (enumerate 0 ps)"

definition bs :: char where
  "bs = CHR 0x5C"

definition date_pattern :: string where
  "date_pattern = ''('' @ [bs] @ ''d{1,2}[-/'' @ [bs] @ ''.]'' @ [bs] @ ''d{1,2}[-/'' @ [bs]
                  @ ''.]'' @ [bs] @ ''d{2,4})''"

definition label_pattern :: string where
  "label_pattern = ''(Corrigendum|Addendum|Amendment)''"

record amendment =
  AmendmentType :: string
  FileName :: string
  Date :: "string option"
  AmendNotes :: string
  Pages :: nat

text \<open>
  One turn of the loop of \<open>append_amendments\<close>. \<open>Date\<close> holds \<open>m.group(1)\<close> as it is,
  which Python allows to be \<open>None\<close>.
\<close>

definition amendment_row :: "re_module \<Rightarrow> pdf_file \<Rightarrow> error + amendment" where
  "amendment_row re f =
     (let pages = read_pdf_text_with_pages (file_src f);
          label = ''Corrigendum/Addendum''
      in case find_first re date_pattern pages IGNORECASE of
           Inl e \<Rightarrow> Inl e
         | Inr h \<Rightarrow>
             (case (case h of None \<Rightarrow> Inr (Some []) | Some (pn, m) \<Rightarrow> group_of m 1) of
                Inl e \<Rightarrow> Inl e
              | Inr date_found \<Rightarrow>
                  (case find_first re label_pattern pages IGNORECASE of
                     Inl e \<Rightarrow> Inl e
                   | Inr h2 \<Rightarrow>
                       (case (case h2 of None \<Rightarrow> Inr label
                                       | Some (pn2, m2) \<Rightarrow> map_sum id clean_text (group_of m2 1)) of
                          Inl e \<Rightarrow> Inl e
                        | Inr label' \<Rightarrow>
                            Inr \<lparr>AmendmentType = label', FileName = file_name f,
                                 Date = date_found, AmendNotes = [],
                                 Pages = length pages\<rparr>))))"

fun append_amendments :: "re_module \<Rightarrow> pdf_file list \<Rightarrow> error + amendment list" where
  "append_amendments re [] = Inr []"
| "append_amendments re (f # fs) =
     (case amendment_row re f of
        Inl e \<Rightarrow> Inl e
      | Inr r \<Rightarrow> (case append_amendments re fs of
                    Inl e \<Rightarrow> Inl e
                  | Inr rs \<Rightarrow> Inr (r # rs)))"

section \<open>A reference regular-expression library\<close>

text \<open>
  The theorems below hold for every library. To run the program on concrete documents
  a small backtracking matcher stands in for \<open>re\<close>: literals, character classes,
  concatenation, alternation (left alternative first), bounded greedy repetition and
  numbered groups, searched leftmost-first, with IGNORECASE folding the letters below
  256. It knows the patterns of \<open>ref_patterns\<close> by their syntax trees and refuses
  every other pattern.
\<close>

datatype rx = Lit string | Cls "char list" | Cat rx rx | Alt rx rx | Rep nat nat rx | Grp nat rx

type_synonym mstate = "string \<times> string option list"

definition lower :: "char \<Rightarrow> char" where
  "lower c =
     (let n = (of_char c :: nat)
      in if 65 \<le> n \<and> n \<le> 90 then char_of (n + 32)
         else if n = 215 then c
         else if 192 \<le> n \<and> n \<le> 222 then char_of (n + 32)
         else c)"

definition same_char :: "bool \<Rightarrow> char \<Rightarrow> char \<Rightarrow> bool" where
  "same_char ic a b = (if ic then lower a = lower b else a = b)"

fun lit_rest :: "bool \<Rightarrow> string \<Rightarrow> string \<Rightarrow> string option" where
  "lit_rest ic [] s = Some s"
| "lit_rest ic (l # ls) [] = None"
| "lit_rest ic (l # ls) (c # cs) = (if same_char ic l c then lit_rest ic ls cs else None)"

text \<open>
  The states reachable by between \<open>lo\<close> and \<open>hi\<close> rounds of \<open>f\<close>, the longest
  attempts first.
\<close>

fun rx_repeat :: "('s \<Rightarrow> 's list) \<Rightarrow> nat \<Rightarrow> nat \<Rightarrow> 's \<Rightarrow> 's list" where
  "rx_repeat f lo 0 st = (if lo = 0 then [st] else [])"
| "rx_repeat f lo (Suc hi) st =
     concat (map (rx_repeat f (lo - 1) hi) (f st)) @ (if lo = 0 then [st] else [])"

text \<open>
  All the ways a pattern matches at the head of the text, in the order in which a
  backtracking matcher tries them; a state is the text still unread and the groups so
  far.
\<close>

primrec rx_match :: "bool \<Rightarrow> rx \<Rightarrow> mstate \<Rightarrow> mstate list" where
  "rx_match ic (Lit l) =
     (\<lambda>st. case lit_rest ic l (fst st) of None \<Rightarrow> [] | Some s' \<Rightarrow> [(s', snd st)])"
| "rx_match ic (Cls cs) =
     (\<lambda>st. case fst st of
             [] \<Rightarrow> []
           | c # s' \<Rightarrow> if list_ex (same_char ic c) cs then [(s', snd st)] else [])"
| "rx_match ic (Cat a b) = (\<lambda>st. concat (map (rx_match ic b) (rx_match ic a st)))"
| "rx_match ic (Alt a b) = (\<lambda>st. rx_match ic a st @ rx_match ic b st)"
| "rx_match ic (Rep lo hi a) = rx_repeat (rx_match ic a) lo hi"
| "rx_match ic (Grp i a) =
     (\<lambda>st. map (\<lambda>(s', c). (s', c[i := Some (take (length (fst st) - length s') (fst st))]))
                (rx_match ic a st))"

text \<open>The leftmost match in a text, with the text that follows it.\<close>

fun rx_scan :: "bool \<Rightarrow> rx \<Rightarrow> nat \<Rightarrow> string \<Rightarrow> (match \<times> string) option" where
  "rx_scan ic r n s =
     (case rx_match ic r (s, replicate n None) of
        (s', c) # _ \<Rightarrow>
          Some (\<lparr>whole = take (length s - length s') s, groups = c, groupdict = []\<rparr>, s')
      | [] \<Rightarrow> (case s of [] \<Rightarrow> None | _ # t \<Rightarrow> rx_scan ic r n t))"

text \<open>
  The successive matches. Each round leaves a shorter text (an empty match moves one
  character on), so one round more than the text has characters reaches its end.
\<close>

fun rx_iter :: "nat \<Rightarrow> bool \<Rightarrow> rx \<Rightarrow> nat \<Rightarrow> string \<Rightarrow> match list" where
  "rx_iter 0 ic r n s = []"
| "rx_iter (Suc k) ic r n s =
     (case rx_scan ic r n s of
        None \<Rightarrow> []
      | Some (m, rest) \<Rightarrow>
          m # (if whole m = [] then (case rest of [] \<Rightarrow> [] | _ # t \<Rightarrow> rx_iter k ic r n t)
               else rx_iter k ic r n rest))"

definition digit :: rx where
  "digit = Cls ''0123456789''"

definition date_sep :: rx where
  "date_sep = Cls ''-/.''"

definition capacity_pattern :: string where
  "capacity_pattern = ''('' @ [bs] @ ''d{1,4}) MW''"

definition date_tree :: rx where
  "date_tree =
     Grp 0 (Cat (Rep 1 2 digit) (Cat date_sep (Cat (Rep 1 2 digit)
            (Cat date_sep (Rep 2 4 digit)))))"

definition label_tree :: rx where
  "label_tree = Grp 0 (Alt (Lit ''Corrigendum'') (Alt (Lit ''Addendum'') (Lit ''Amendment'')))"

definition capacity_tree :: rx where
  "capacity_tree = Cat (Grp 0 (Rep 1 4 digit)) (Lit '' MW'')"

text \<open>Each pattern with the number of its groups and its syntax tree.\<close>

definition ref_patterns :: "(string \<times> nat \<times> rx) list" where
  "ref_patterns =
     [(date_pattern, 1, date_tree),
      (label_pattern, 1, label_tree),
      (capacity_pattern, 1, capacity_tree),
      (''Tender'', 0, Lit ''Tender'')]"

definition ref_pattern_obj :: "bool \<Rightarrow> nat \<Rightarrow> rx \<Rightarrow> pattern_obj" where
  "ref_pattern_obj ic n r =
     \<lparr>search = (\<lambda>s. map_option fst (rx_scan ic r n s)),
      finditer = (\<lambda>s. rx_iter (Suc (length s)) ic r n s)\<rparr>"

definition ref_compile :: "string \<Rightarrow> nat \<Rightarrow> error + pattern_obj" where
  "ref_compile pattern flags =
     (case map_of ref_patterns pattern of
        None \<Rightarrow> Inl ReError
      | Some (n, r) \<Rightarrow> Inr (ref_pattern_obj (flags AND IGNORECASE \<noteq> 0) n r))"

text \<open>
  Some attributes of the module: flags with their values, and functions and a class,
  which are no integers.
\<close>

definition ref_getattr :: "string \<Rightarrow> attr option" where
  "ref_getattr = map_of
     [(''IGNORECASE'', IntLike 2), (''I'', IntLike 2),
      (''MULTILINE'', IntLike 8), (''M'', IntLike 8),
      (''DOTALL'', IntLike 16), (''S'', IntLike 16),
      (''VERBOSE'', IntLike 64), (''X'', IntLike 64),
      (''ASCII'', IntLike 256), (''A'', IntLike 256),
      (''compile'', Other), (''search'', Other), (''match'', Other), (''sub'', Other),
      (''error'', Other)]"

definition ref_re :: re_module where
  "ref_re = \<lparr>re_getattr = ref_getattr, re_compile = ref_compile\<rparr>"

section \<open>Notions used to state the properties\<close>

text \<open>The pattern object a directive searches with: its flags, then its pattern.\<close>

definition compiled_directive :: "re_module \<Rightarrow> extractor \<Rightarrow> error + pattern_obj" where
  "compiled_directive re ext =
     (case compile_flags re (get (ext_flags ext) [''IGNORECASE'']) 0 of
        Inl e \<Rightarrow> Inl e
      | Inr fl \<Rightarrow> re_compile re (get (ext_pattern ext) []) fl)"

text \<open>The row a directive writes for a match on a page.\<close>

definition row_of :: "extractor \<Rightarrow> nat \<Rightarrow> match \<Rightarrow> tag_row" where
  "row_of ext pn m =
     \<lparr>Section = get (ext_section ext) ''General'', ClauseRef = get (ext_clause ext) [],
      Parameter = get (ext_parameter ext) [],
      Value = render_value (get (ext_value_expr ext) ''{0}'') m,
      Unit = get (ext_unit ext) [], Notes = get (ext_notes ext) [], SourcePage = pn\<rparr>"

text \<open>A directive with only its mode, pattern, template and flags set.\<close>

definition directive ::
  "string option \<Rightarrow> string \<Rightarrow> string option \<Rightarrow> string list option \<Rightarrow> extractor" where
  "directive mode pattern value_expr flags =
     \<lparr>ext_section = None, ext_clause = None, ext_parameter = Some ''Capacity'',
      ext_unit = Some ''MW'', ext_notes = None, ext_mode = mode, ext_pattern = Some pattern,
      ext_value_expr = value_expr, ext_flags = flags\<rparr>"

section \<open>Value rendering\<close>

lemma dict_set_not_Nil: "dict_set k v d \<noteq> []"
  by (cases d) auto

lemma fold_dict_set_not_Nil:
  "xs \<noteq> [] \<or> d \<noteq> [] \<Longrightarrow> fold (\<lambda>(k, v). dict_set (f k) (g v)) xs d \<noteq> []"
proof (induction xs arbitrary: d)
  case Nil
  then show ?case by simp
next
  case (Cons x xs)
  obtain k v where x: "x = (k, v)"
    by (cases x)
  have "dict_set (f k) (g v) d \<noteq> []"
    by (rule dict_set_not_Nil)
  then have "fold (\<lambda>(k, v). dict_set (f k) (g v)) xs (dict_set (f k) (g v) d) \<noteq> []"
    using Cons.IH by blast
  then show ?case
    by (simp add: x)
qed

lemma fmt_dict_not_Nil:
  assumes "groups m = g # gs"
  shows "fmt_dict m \<noteq> []"
proof -
  let ?pos = "fold (\<lambda>(i, g). dict_set (str_nat i) (clean_text g)) (enumerate 0 (groups m)) []"
  have "enumerate 0 (groups m) \<noteq> []"
    using assms by simp
  then have "?pos \<noteq> []"
    using fold_dict_set_not_Nil [of "enumerate 0 (groups m)" "[]" str_nat clean_text] by blast
  then have "fold (\<lambda>(k, v). dict_set (id k) (clean_text v)) (groupdict m) ?pos \<noteq> []"
    using fold_dict_set_not_Nil [of "groupdict m" ?pos id clean_text] by blast
  then show ?thesis
    unfolding fmt_dict_def Let_def id_apply .
qed

lemma fmt_dict_no_groups:
  "groups m = [] \<Longrightarrow> groupdict m = [] \<Longrightarrow> fmt_dict m = []"
  by (simp add: fmt_dict_def)

lemma format_call_not_Nil: "d \<noteq> [] \<Longrightarrow> format_call value_expr d = Inl TypeError"
  by (cases d) (auto simp: format_call_def Let_def)

text \<open>
  Neither access of the \<open>except\<close> branch can raise: group 1 is asked for only when
  \<open>m.groups()\<close> is not empty.
\<close>

lemma fallback_group_defined:
  "(if groups m \<noteq> [] then group_of m 1 else group_of m 0)
     = Inr (case groups m of [] \<Rightarrow> Some (whole m) | g # gs \<Rightarrow> g)"
  by (cases "groups m") (simp_all add: group_of_def)

lemma fallback_value_groups: "groups m = g # gs \<Longrightarrow> fallback_value m = clean_text g"
  by (simp add: fallback_value_def group_of_def)

lemma fallback_value_no_groups: "groups m = [] \<Longrightarrow> fallback_value m = clean_text (Some (whole m))"
  by (simp add: fallback_value_def group_of_def)

lemma render_value_groups: "groups m = g # gs \<Longrightarrow> render_value value_expr m = clean_text g"
  by (simp add: render_value_def format_call_not_Nil fmt_dict_not_Nil fallback_value_groups)

text \<open>
  C5. The claim: rendering resolves the template against the groups, so that the
  template \<open>{0} MW\<close> with one group matching \<open>250\<close> gives \<open>250 MW\<close>. The code does
  not: with a group present the \<open>format\<close> call of line 187 raises before the template
  is looked at, and the fallback returns the cleaned first group alone. Evaluated on
  that match, and through a whole directive on a page reading \<open>Capacity: 250 MW\<close>.
\<close>

theorem render_value_drops_template:
  "render_value ''{0} MW'' \<lparr>whole = ''250'', groups = [Some ''250''], groupdict = []\<rparr> = ''250''
   \<and> map_sum id (map Value)
         (run_extractors ref_re [(1, ''Capacity: 250 MW'')]
            [directive None capacity_pattern (Some ''{0} MW'') None])
       = Inr [''250'']"
  by code_simp

text \<open>
  C9. When the pattern has a group and the first group took no part in the match, the
  fallback of \<open>render_value\<close> is the empty string (and so is the value rendered,
  whatever the template), not the cleaned text of the whole match.
\<close>

theorem fallback_unset_group_is_empty:
  assumes "groups m = None # gs"
  shows "fallback_value m = [] \<and> render_value value_expr m = []"
  using assms by (simp add: fallback_value_groups render_value_groups)

theorem fallback_unset_group_is_empty_witness:
  "fallback_value \<lparr>whole = ''33 kV'', groups = [None, Some ''33''], groupdict = []\<rparr> = []
   \<and> render_value ''{0}'' \<lparr>whole = ''33 kV'', groups = [None, Some ''33''], groupdict = []\<rparr> = []
   \<and> clean_text (Some (whole \<lparr>whole = ''33 kV'', groups = [None, Some ''33''], groupdict = []\<rparr>))
       = ''33 kV''"
proof -
  let ?m = "\<lparr>whole = ''33 kV'', groups = [None, Some ''33''], groupdict = []\<rparr>"
  have h: "groups ?m = None # [Some ''33'']"
    by simp
  have c: "clean_text (Some (whole ?m)) = ''33 kV''"
    by code_simp
  show ?thesis
    using fallback_unset_group_is_empty [OF h, of "''{0}''"] c by blast
qed


section \<open>Running the directives\<close>

lemma compiled_directive_Inr:
  assumes "compiled_directive re ext = Inr rx"
  obtains fl where "compile_flags re (get (ext_flags ext) [''IGNORECASE'']) 0 = Inr fl"
    and "re_compile re (get (ext_pattern ext) []) fl = Inr rx"
  using assms unfolding compiled_directive_def
  by (cases "compile_flags re (get (ext_flags ext) [''IGNORECASE'']) 0") simp_all

lemma extract_one_all:
  assumes "compiled_directive re ext = Inr rx" and "get (ext_mode ext) ''first'' = ''all''"
  shows "extract_one re pages ext = Inr (map (\<lambda>(pn, m). row_of ext pn m) (all_hits rx pages))"
proof -
  obtain fl where fl: "compile_flags re (get (ext_flags ext) [''IGNORECASE'']) 0 = Inr fl"
    and rx: "re_compile re (get (ext_pattern ext) []) fl = Inr rx"
    using assms(1) by (rule compiled_directive_Inr)
  have "find_all re (get (ext_pattern ext) []) pages fl = Inr (all_hits rx pages)"
    by (simp add: find_all_def rx)
  then show ?thesis
    unfolding extract_one_def Let_def row_of_def using fl assms(2) by simp
qed

lemma extract_one_first:
  assumes "compiled_directive re ext = Inr rx" and "get (ext_mode ext) ''first'' \<noteq> ''all''"
  shows "extract_one re pages ext =
           Inr (case first_hit rx pages of None \<Rightarrow> [] | Some (pn, m) \<Rightarrow> [row_of ext pn m])"
proof -
  obtain fl where fl: "compile_flags re (get (ext_flags ext) [''IGNORECASE'']) 0 = Inr fl"
    and rx: "re_compile re (get (ext_pattern ext) []) fl = Inr rx"
    using assms(1) by (rule compiled_directive_Inr)
  have "find_first re (get (ext_pattern ext) []) pages fl = Inr (first_hit rx pages)"
    by (simp add: find_first_def rx)
  then show ?thesis
    unfolding extract_one_def Let_def row_of_def using fl assms(2)
    by (cases "first_hit rx pages") auto
qed

lemma extract_one_failed:
  assumes "compiled_directive re ext = Inl e"
  shows "extract_one re pages ext = Inl e"
proof (cases "compile_flags re (get (ext_flags ext) [''IGNORECASE'']) 0")
  case (Inl e')
  then show ?thesis
    using assms unfolding extract_one_def Let_def compiled_directive_def by simp
next
  case (Inr fl)
  then have "re_compile re (get (ext_pattern ext) []) fl = Inl e"
    using assms unfolding compiled_directive_def by simp
  then show ?thesis
    unfolding extract_one_def Let_def using Inr by (simp add: find_all_def find_first_def)
qed

lemma extractors_loop_rows:
  "list_all2 (\<lambda>ext rows. extract_one re pages ext = Inr rows) exts rowss \<Longrightarrow>
   extractors_loop re pages exts acc = Inr (acc @ concat rowss)"
  by (induction exts rowss arbitrary: acc rule: list_all2_induct) simp_all

lemma length_all_hits:
  "length (all_hits rx pages) = sum_list (map (\<lambda>(pn, text). length (finditer rx text)) pages)"
  by (induction pages) auto

lemma pages_all_hits:
  "map fst (all_hits rx pages) =
     concat (map (\<lambda>(pn, text). replicate (length (finditer rx text)) pn) pages)"
  by (induction pages) (auto simp: map_replicate_const comp_def)

lemma matches_all_hits:
  "map snd (all_hits rx pages) = concat (map (\<lambda>(pn, text). finditer rx text) pages)"
  by (induction pages) (auto simp: comp_def)

lemma first_hit_None: "first_hit rx pages = None \<longleftrightarrow> (\<forall>p \<in> set pages. search rx (snd p) = None)"
  by (induction pages) (auto split: option.splits)

lemma first_hit_Some:
  "\<forall>p \<in> set ps1. search rx (snd p) = None \<Longrightarrow> search rx text = Some m \<Longrightarrow>
   first_hit rx (ps1 @ (pn, text) # ps2) = Some (pn, m)"
  by (induction ps1) (auto split: option.splits)

lemma row_of_simps [simp]:
  "SourcePage (row_of ext pn m) = pn"
  "Value (row_of ext pn m) = render_value (get (ext_value_expr ext) ''{0}'') m"
  by (simp_all add: row_of_def)

lemma extract_one_rows:
  assumes "compiled_directive re ext = Inr rx"
  shows "\<exists>rows. extract_one re pages ext = Inr rows"
  using extract_one_all [OF assms] extract_one_first [OF assms] by (cases "get (ext_mode ext) ''first'' = ''all''") blast+

lemma run_extractors_concat:
  assumes "list_all2 (\<lambda>ext rx. compiled_directive re ext = Inr rx) exts rxs"
  shows "run_extractors re pages exts =
           Inr (concat (map (\<lambda>ext. case extract_one re pages ext of Inr rows \<Rightarrow> rows | Inl e \<Rightarrow> [])
                            exts))"
proof -
  let ?rows = "\<lambda>ext. case extract_one re pages ext of Inr rows \<Rightarrow> rows | Inl e \<Rightarrow> []"
  have "\<forall>ext \<in> set exts. \<exists>rx. compiled_directive re ext = Inr rx"
    using assms by (auto simp: list_all2_conv_all_nth in_set_conv_nth)
  then have "\<forall>ext \<in> set exts. extract_one re pages ext = Inr (?rows ext)"
  proof (intro ballI)
    fix ext
    assume "\<forall>ext \<in> set exts. \<exists>rx. compiled_directive re ext = Inr rx" and "ext \<in> set exts"
    then obtain rx where "compiled_directive re ext = Inr rx"
      by blast
    then obtain rows where "extract_one re pages ext = Inr rows"
      using extract_one_rows by blast
    then show "extract_one re pages ext = Inr (?rows ext)"
      by simp
  qed
  then have "list_all2 (\<lambda>ext rows. extract_one re pages ext = Inr rows) exts (map ?rows exts)"
    by (simp add: list_all2_conv_all_nth)
  then show ?thesis
    unfolding run_extractors_def using extractors_loop_rows [of re pages exts "map ?rows exts" "[]"]
    by simp
qed

subsection \<open>The reference library on its patterns\<close>

lemma ref_flags: "compile_flags ref_re [''IGNORECASE''] 0 = Inr 2"
  by code_simp

lemma ref_compile_capacity: "ref_compile capacity_pattern 2 = Inr (ref_pattern_obj True 1 capacity_tree)"
  by (simp add: ref_compile_def ref_patterns_def capacity_pattern_def date_pattern_def
        label_pattern_def IGNORECASE_def)

lemma ref_compile_date: "ref_compile date_pattern 2 = Inr (ref_pattern_obj True 1 date_tree)"
  by (simp add: ref_compile_def ref_patterns_def IGNORECASE_def)

lemma ref_compile_label: "ref_compile label_pattern 2 = Inr (ref_pattern_obj True 1 label_tree)"
  by (simp add: ref_compile_def ref_patterns_def date_pattern_def
        label_pattern_def IGNORECASE_def)

lemma re_compile_ref: "re_compile ref_re = ref_compile"
  by (simp add: ref_re_def)

lemma compiled_capacity:
  "compiled_directive ref_re (directive mode capacity_pattern ve None)
     = Inr (ref_pattern_obj True 1 capacity_tree)"
proof -
  let ?ext = "directive mode capacity_pattern ve None"
  have "get (ext_flags ?ext) [''IGNORECASE''] = [''IGNORECASE'']"
    and "get (ext_pattern ?ext) [] = capacity_pattern"
    by (simp_all add: directive_def get_def)
  then show ?thesis
    by (simp only: compiled_directive_def ref_flags re_compile_ref ref_compile_capacity sum.case)
qed

text \<open>
  C3. Let every directive compile (its flags and its pattern), \<open>rxs\<close> being the pattern
  objects. Then \<open>run_extractors\<close> returns the rows of the directives in the order of
  the directives. For a directive in mode \<open>all\<close> the rows are as many as the matches
  that \<open>finditer\<close> yields over all pages; their \<open>SourcePage\<close>s are the page numbers,
  each repeated once per match of its page, in page order; their values are the
  rendered matches, page by page in the order \<open>finditer\<close> yields them.
\<close>

theorem all_mode_rows:
  assumes "list_all2 (\<lambda>ext rx. compiled_directive re ext = Inr rx) exts rxs"
  shows "run_extractors re pages exts
           = Inr (concat (map (\<lambda>ext. case extract_one re pages ext of
                                        Inr rows \<Rightarrow> rows | Inl e \<Rightarrow> []) exts))
       \<and> (\<forall>i < length exts. ext_mode (exts ! i) = Some ''all'' \<longrightarrow>
            (\<exists>rows. extract_one re pages (exts ! i) = Inr rows
               \<and> length rows = sum_list (map (\<lambda>(pn, text). length (finditer (rxs ! i) text)) pages)
               \<and> map SourcePage rows
                   = concat (map (\<lambda>(pn, text). replicate (length (finditer (rxs ! i) text)) pn) pages)
               \<and> map Value rows
                   = concat (map (\<lambda>(pn, text). map (render_value (get (ext_value_expr (exts ! i)) ''{0}''))
                                                   (finditer (rxs ! i) text)) pages)))"
proof (intro conjI allI impI)
  show "run_extractors re pages exts
          = Inr (concat (map (\<lambda>ext. case extract_one re pages ext of
                                       Inr rows \<Rightarrow> rows | Inl e \<Rightarrow> []) exts))"
    using assms by (rule run_extractors_concat)
next
  fix i
  assume i: "i < length exts" and mode: "ext_mode (exts ! i) = Some ''all''"
  let ?ext = "exts ! i" and ?rx = "rxs ! i"
  let ?rows = "map (\<lambda>(pn, m). row_of ?ext pn m) (all_hits ?rx pages)"
  have rx: "compiled_directive re ?ext = Inr ?rx"
    using assms i by (simp add: list_all2_conv_all_nth)
  have "get (ext_mode ?ext) ''first'' = ''all''"
    by (simp add: mode get_def)
  with rx have rows: "extract_one re pages ?ext = Inr ?rows"
    by (rule extract_one_all)
  have len: "length ?rows = sum_list (map (\<lambda>(pn, text). length (finditer ?rx text)) pages)"
    by (simp add: length_all_hits)
  have "map SourcePage ?rows = map fst (all_hits ?rx pages)"
    by (simp add: case_prod_unfold)
  then have src: "map SourcePage ?rows
      = concat (map (\<lambda>(pn, text). replicate (length (finditer ?rx text)) pn) pages)"
    by (simp only: pages_all_hits)
  have "map Value ?rows
      = map (render_value (get (ext_value_expr ?ext) ''{0}'')) (map snd (all_hits ?rx pages))"
    by (simp add: case_prod_unfold)
  then have val: "map Value ?rows
      = concat (map (\<lambda>(pn, text). map (render_value (get (ext_value_expr ?ext) ''{0}''))
                                      (finditer ?rx text)) pages)"
    by (simp only: matches_all_hits) (simp add: map_concat comp_def case_prod_unfold)
  show "\<exists>rows. extract_one re pages ?ext = Inr rows
          \<and> length rows = sum_list (map (\<lambda>(pn, text). length (finditer ?rx text)) pages)
          \<and> map SourcePage rows
              = concat (map (\<lambda>(pn, text). replicate (length (finditer ?rx text)) pn) pages)
          \<and> map Value rows
              = concat (map (\<lambda>(pn, text). map (render_value (get (ext_value_expr ?ext) ''{0}''))
                                              (finditer ?rx text)) pages)"
    using rows len src val by blast
qed

theorem all_mode_rows_witness:
  "map_sum id (map (\<lambda>r. (Value r, SourcePage r)))
     (run_extractors ref_re [(1, ''250 MW, 300 mw''), (2, ''none''), (3, ''550 MW'')]
        [directive (Some ''all'') capacity_pattern None None,
         directive None capacity_pattern None None])
     = Inr [(''250'', 1), (''300'', 1), (''550'', 3), (''250'', 1)]
   \<and> (\<exists>rows. extract_one ref_re [(1, ''250 MW, 300 mw''), (2, ''none''), (3, ''550 MW'')]
                (directive (Some ''all'') capacity_pattern None None) = Inr rows
          \<and> length rows = 3 \<and> map SourcePage rows = [1, 1, 3]
          \<and> map Value rows = [''250'', ''300'', ''550''])"
proof -
  let ?pages = "[(1, ''250 MW, 300 mw''), (2, ''none''), (3, ''550 MW'')] :: page list"
  let ?all = "directive (Some ''all'') capacity_pattern None None"
  let ?first = "directive None capacity_pattern None None"
  let ?rx = "ref_pattern_obj True 1 capacity_tree"
  have h: "list_all2 (\<lambda>ext rx. compiled_directive ref_re ext = Inr rx) [?all, ?first] [?rx, ?rx]"
    by (simp add: compiled_capacity)
  have mode: "ext_mode ?all = Some ''all''"
    by (simp add: directive_def)
  have ve: "get (ext_value_expr ?all) ''{0}'' = ''{0}''"
    by (simp add: directive_def get_def)
  have n: "sum_list (map (\<lambda>(pn, text). length (finditer ?rx text)) ?pages) = 3"
    by code_simp
  have src: "concat (map (\<lambda>(pn, text). replicate (length (finditer ?rx text)) pn) ?pages) = [1, 1, 3]"
    by code_simp
  have val: "concat (map (\<lambda>(pn, text). map (render_value ''{0}'') (finditer ?rx text)) ?pages)
               = [''250'', ''300'', ''550'']"
    by code_simp
  have first: "map_sum id (map (\<lambda>r. (Value r, SourcePage r))) (extract_one ref_re ?pages ?first)
      = Inr [(''250'', 1)]"
    by code_simp
  note inst = all_mode_rows [OF h, of ?pages]
  have run: "run_extractors ref_re ?pages [?all, ?first]
      = Inr (concat (map (\<lambda>ext. case extract_one ref_re ?pages ext of
                                   Inr rows \<Rightarrow> rows | Inl e \<Rightarrow> []) [?all, ?first]))"
    by (rule inst [THEN conjunct1])
  have i0: "(0::nat) < length [?all, ?first]"
    by simp
  have a0: "[?all, ?first] ! 0 = ?all" and r0: "[?rx, ?rx] ! 0 = ?rx"
    by simp_all
  note at0 = inst [THEN conjunct2, rule_format, OF i0, unfolded a0 r0, OF mode, unfolded ve n src val]
  from at0 obtain rows where rows: "extract_one ref_re ?pages ?all = Inr rows"
    and len: "length rows = 3" and pgs: "map SourcePage rows = [1, 1, 3]"
    and vals: "map Value rows = [''250'', ''300'', ''550'']"
    by (elim exE conjE)
  have "map (\<lambda>r. (Value r, SourcePage r)) rows = zip (map Value rows) (map SourcePage rows)"
    by (induction rows) simp_all
  then have pairs: "map (\<lambda>r. (Value r, SourcePage r)) rows = [(''250'', 1), (''300'', 1), (''550'', 3)]"
    unfolding pgs vals by simp
  obtain frows where frows: "extract_one ref_re ?pages ?first = Inr frows"
    and fpairs: "map (\<lambda>r. (Value r, SourcePage r)) frows = [(''250'', 1)]"
    using first by (cases "extract_one ref_re ?pages ?first") simp_all
  have "concat (map (\<lambda>ext. case extract_one ref_re ?pages ext of
                               Inr rows \<Rightarrow> rows | Inl e \<Rightarrow> []) [?all, ?first]) = rows @ frows"
    by (simp only: list.map concat.simps rows frows sum.case append_Nil2)
  then have "run_extractors ref_re ?pages [?all, ?first] = Inr (rows @ frows)"
    by (simp only: run)
  then have "map_sum id (map (\<lambda>r. (Value r, SourcePage r)))
               (run_extractors ref_re ?pages [?all, ?first])
             = Inr [(''250'', 1), (''300'', 1), (''550'', 3), (''250'', 1)]"
    by (simp only: map_sum.simps map_append pairs fpairs append.simps)
  moreover have "\<exists>rows. extract_one ref_re ?pages ?all = Inr rows
          \<and> length rows = 3 \<and> map SourcePage rows = [1, 1, 3]
          \<and> map Value rows = [''250'', ''300'', ''550'']"
    by (intro exI [of _ rows] conjI rows len pgs vals)
  ultimately show ?thesis
    by (rule conjI)
qed

text \<open>
  C4. Let a directive in mode \<open>first\<close> compile to \<open>rx\<close>. If \<open>search\<close> finds nothing on
  any page, the directive gives no row and no error. If it finds nothing on the pages
  before some page and finds \<open>m\<close> on that page, the directive gives exactly one row,
  with that page as \<open>SourcePage\<close> and \<open>m\<close> rendered as value.
\<close>

theorem first_mode_rows:
  assumes "ext_mode ext = Some ''first''" and "compiled_directive re ext = Inr rx"
  shows "((\<forall>p \<in> set pages. search rx (snd p) = None) \<longrightarrow> extract_one re pages ext = Inr [])
       \<and> (\<forall>ps1 pn text ps2 m.
            pages = ps1 @ (pn, text) # ps2 \<and> (\<forall>p \<in> set ps1. search rx (snd p) = None)
              \<and> search rx text = Some m
            \<longrightarrow> (\<exists>row. extract_one re pages ext = Inr [row] \<and> SourcePage row = pn
                    \<and> Value row = render_value (get (ext_value_expr ext) ''{0}'') m))"
proof -
  have "get (ext_mode ext) ''first'' \<noteq> ''all''"
    by (simp add: assms(1) get_def)
  with assms(2) have rows: "extract_one re pages ext =
      Inr (case first_hit rx pages of None \<Rightarrow> [] | Some (pn, m) \<Rightarrow> [row_of ext pn m])"
    by (rule extract_one_first)
  have none: "extract_one re pages ext = Inr []" if "\<forall>p \<in> set pages. search rx (snd p) = None"
  proof -
    from that have "first_hit rx pages = None"
      by (simp add: first_hit_None)
    then show ?thesis
      by (simp add: rows)
  qed
  have some: "\<exists>row. extract_one re pages ext = Inr [row] \<and> SourcePage row = pn
                \<and> Value row = render_value (get (ext_value_expr ext) ''{0}'') m"
    if "pages = ps1 @ (pn, t) # ps2" and "\<forall>p \<in> set ps1. search rx (snd p) = None"
      and "search rx t = Some m" for ps1 pn t ps2 m
  proof -
    have "first_hit rx pages = Some (pn, m)"
      unfolding that(1) using that(2,3) by (rule first_hit_Some)
    then have "extract_one re pages ext = Inr [row_of ext pn m]"
      by (simp add: rows)
    then show ?thesis
      by simp
  qed
  show ?thesis
    using none some by blast
qed

theorem first_mode_rows_witness:
  "extract_one ref_re [(1, ''none''), (2, ''n/a'')]
     (directive (Some ''first'') capacity_pattern None None) = Inr []
   \<and> (\<exists>row. extract_one ref_re [(1, ''none''), (2, ''250 MW, 300 mw''), (3, ''550 MW'')]
                (directive (Some ''first'') capacity_pattern None None) = Inr [row]
          \<and> SourcePage row = 2 \<and> Value row = ''250'')"
proof -
  let ?ext = "directive (Some ''first'') capacity_pattern None None"
  let ?rx = "ref_pattern_obj True 1 capacity_tree"
  let ?m = "\<lparr>whole = ''250 MW'', groups = [Some ''250''], groupdict = []\<rparr>"
  have mode: "ext_mode ?ext = Some ''first''"
    by (simp add: directive_def)
  have cd: "compiled_directive ref_re ?ext = Inr ?rx"
    by (rule compiled_capacity)
  have ve: "get (ext_value_expr ?ext) ''{0}'' = ''{0}''"
    by (simp add: directive_def get_def)
  have none: "\<forall>p \<in> set [(1::nat, ''none''), (2, ''n/a'')]. search ?rx (snd p) = None"
    by code_simp
  have split: "[(1::nat, ''none''), (2, ''250 MW, 300 mw''), (3, ''550 MW'')]
                 = [(1, ''none'')] @ (2, ''250 MW, 300 mw'') # [(3, ''550 MW'')]"
    by simp
  have before: "\<forall>p \<in> set [(1::nat, ''none'')]. search ?rx (snd p) = None"
    by code_simp
  have hit: "search ?rx ''250 MW, 300 mw'' = Some ?m"
    by code_simp
  have val: "render_value ''{0}'' ?m = ''250''"
    by code_simp
  have "extract_one ref_re [(1, ''none''), (2, ''n/a'')] ?ext = Inr []"
    by (rule first_mode_rows [OF mode cd, THEN conjunct1, THEN mp, OF none])
  moreover have "\<exists>row. extract_one ref_re [(1, ''none''), (2, ''250 MW, 300 mw''), (3, ''550 MW'')] ?ext
                        = Inr [row]
                   \<and> SourcePage row = 2 \<and> Value row = ''250''"
    using first_mode_rows [OF mode cd, THEN conjunct2, THEN spec, THEN spec, THEN spec, THEN spec,
            THEN spec, THEN mp, OF conjI [OF split conjI [OF before hit]]]
    unfolding ve val .
  ultimately show ?thesis
    by (rule conjI)
qed

text \<open>
  C10. A directive whose mode is anything but the string \<open>all\<close> (another spelling, any
  other text, or no mode) yields what the same directive in mode \<open>first\<close> yields; no
  mode is refused.
\<close>

theorem other_modes_are_first_mode:
  assumes "ext_mode ext \<noteq> Some ''all''"
  shows "extract_one re pages ext = extract_one re pages (ext\<lparr>ext_mode := Some ''first''\<rparr>)"
proof -
  have mode: "get (ext_mode ext) ''first'' \<noteq> ''all''"
    using assms by (cases "ext_mode ext") (simp_all add: get_def)
  have first: "get (Some ''first'') ''first'' \<noteq> ''all''"
    by (simp add: get_def)
  show ?thesis
  proof (cases "compile_flags re (get (ext_flags ext) [''IGNORECASE'']) 0")
    case (Inl e)
    then show ?thesis
      unfolding extract_one_def Let_def by simp
  next
    case (Inr fl)
    then show ?thesis
      unfolding extract_one_def Let_def using mode first
      by (simp split: sum.split option.split)
  qed
qed

theorem other_modes_are_first_mode_witness:
  "map_sum id (map (\<lambda>r. (Value r, SourcePage r)))
     (extract_one ref_re [(1, ''none''), (2, ''250 MW, 300 mw''), (3, ''550 MW'')]
        (directive (Some ''ALL'') capacity_pattern None None))
     = Inr [(''250'', 2)]"
proof -
  let ?pages = "[(1, ''none''), (2, ''250 MW, 300 mw''), (3, ''550 MW'')] :: page list"
  let ?ext = "directive (Some ''ALL'') capacity_pattern None None"
  have mode: "ext_mode ?ext \<noteq> Some ''all''"
    by (simp add: directive_def)
  have upd: "?ext\<lparr>ext_mode := Some ''first''\<rparr> = directive (Some ''first'') capacity_pattern None None"
    by (simp add: directive_def)
  have first: "map_sum id (map (\<lambda>r. (Value r, SourcePage r)))
                 (extract_one ref_re ?pages (directive (Some ''first'') capacity_pattern None None))
               = Inr [(''250'', 2)]"
    by code_simp
  show ?thesis
    unfolding other_modes_are_first_mode [OF mode, of ref_re ?pages] upd by (rule first)
qed

section \<open>The BID_INFO table\<close>

lemma fst_upsert_row:
  "map fst (upsert_row k v df) = (if k \<in> fst ` set df then map fst df else map fst df @ [k])"
  by (auto simp: upsert_row_def case_prod_unfold)

lemma distinct_upsert_row:
  "distinct (map fst df) \<Longrightarrow> distinct (map fst (upsert_row k v df))"
  by (simp add: fst_upsert_row)

lemma distinct_fold_upsert:
  "distinct (map fst df) \<Longrightarrow> distinct (map fst (fold (\<lambda>(k, v). upsert_row k v) mapping df))"
proof (induction mapping arbitrary: df)
  case Nil
  then show ?case by simp
next
  case (Cons kv mapping)
  obtain k v where kv: "kv = (k, v)"
    by (cases kv)
  have "distinct (map fst (upsert_row k v df))"
    using Cons.prems by (rule distinct_upsert_row)
  then have "distinct (map fst (fold (\<lambda>(k, v). upsert_row k v) mapping (upsert_row k v df)))"
    by (rule Cons.IH)
  then show ?case
    by (simp add: kv)
qed

lemma upsert_bid_info_fold:
  "upsert_bid_info df mapping = fold (\<lambda>(k, v). upsert_row k v) mapping df"
  by (simp add: upsert_bid_info_def)

lemma filter_upsert_row_same:
  assumes "distinct (map fst df)"
  shows "filter (\<lambda>r. fst r = k) (upsert_row k v df) = [(k, v)]"
proof (cases "k \<in> fst ` set df")
  case False
  then have "filter (\<lambda>r. fst r = k) df = []"
    by (auto simp: filter_empty_conv)
  with False show ?thesis
    by (simp add: upsert_row_def)
next
  case True
  from assms True show ?thesis
  proof (induction df)
    case Nil
    then show ?case by simp
  next
    case (Cons r df)
    show ?case
    proof (cases "fst r = k")
      case True
      then have notin: "k \<notin> fst ` set df"
        using Cons.prems(1) by auto
      then have "filter (\<lambda>r. fst r = k) (map (\<lambda>(f, x). if f = k then (f, v) else (f, x)) df) = []"
        by (induction df) auto
      with True show ?thesis
        by (cases r) (simp add: upsert_row_def)
    next
      case False
      then have "k \<in> fst ` set df"
        using Cons.prems(2) by auto
      moreover have "distinct (map fst df)"
        using Cons.prems(1) by simp
      ultimately have "filter (\<lambda>r. fst r = k) (upsert_row k v df) = [(k, v)]"
        by (rule Cons.IH [rotated])
      with False \<open>k \<in> fst ` set df\<close> show ?thesis
        by (cases r) (simp add: upsert_row_def)
    qed
  qed
qed

lemma upsert_bid_info_snoc:
  "upsert_bid_info df (mapping @ [(k, v)]) = upsert_row k v (upsert_bid_info df mapping)"
  by (simp add: upsert_bid_info_def)

lemma map_of_replace_same:
  "k \<in> fst ` set d \<Longrightarrow> map_of (map (\<lambda>(f, x). if f = k then (f, v) else (f, x)) d) k = Some v"
  by (induction d) (auto simp: case_prod_unfold)

lemma map_of_replace_other:
  "k' \<noteq> k \<Longrightarrow> map_of (map (\<lambda>(f, x). if f = k then (f, v) else (f, x)) d) k' = map_of d k'"
  by (induction d) (auto simp: case_prod_unfold)

lemma map_of_upsert_row:
  "map_of (upsert_row k v d) k' = (if k' = k then Some v else map_of d k')"
proof (cases "k \<in> fst ` set d")
  case True
  then show ?thesis
    by (simp add: upsert_row_def map_of_replace_same map_of_replace_other)
next
  case False
  then have "map_of d k = None"
    by (simp add: map_of_eq_None_iff)
  with False show ?thesis
    by (simp add: upsert_row_def map_add_def split: option.split)
qed

lemma map_of_upsert_bid_info:
  "map_of (upsert_bid_info df mapping) k
     = (case map_of (rev mapping) k of Some v \<Rightarrow> Some v | None \<Rightarrow> map_of df k)"
proof (induction mapping rule: rev_induct)
  case Nil
  show ?case
    by (simp add: upsert_bid_info_def)
next
  case (snoc kv mapping)
  obtain k' v' where kv: "kv = (k', v')"
    by (cases kv)
  show ?case
    unfolding kv upsert_bid_info_snoc map_of_upsert_row using snoc.IH by simp
qed

lemma fields_upsert_bid_info:
  "map fst (upsert_bid_info df mapping)
     = map fst df @ filter (\<lambda>k. k \<notin> fst ` set df) (rev (remdups (rev (map fst mapping))))"
proof (induction mapping rule: rev_induct)
  case Nil
  show ?case
    by (simp add: upsert_bid_info_def)
next
  case (snoc kv mapping)
  obtain k v where kv: "kv = (k, v)"
    by (cases kv)
  let ?old = "upsert_bid_info df mapping"
  have keys: "fst ` set ?old = fst ` set df \<union> fst ` set mapping"
  proof -
    have "set (map fst ?old) = set (map fst df) \<union> set (map fst mapping)"
      unfolding snoc.IH by auto
    then show ?thesis
      by simp
  qed
  show ?case
  proof (cases "k \<in> fst ` set mapping")
    case True
    then show ?thesis
      unfolding kv upsert_bid_info_snoc fst_upsert_row keys using snoc.IH by simp
  next
    case False
    then show ?thesis
      unfolding kv upsert_bid_info_snoc fst_upsert_row keys using snoc.IH by simp
  qed
qed

lemma rows_from_fields:
  "distinct (map fst l) \<Longrightarrow> l = map (\<lambda>k. (k, the (map_of l k))) (map fst l)"
proof (induction l)
  case Nil
  show ?case by simp
next
  case (Cons r l)
  obtain f x where r: "r = (f, x)"
    by (cases r)
  let ?g = "\<lambda>k. (k, the (map_of ((f, x) # l) k))"
  have notin: "f \<notin> fst ` set l" and dist: "distinct (map fst l)"
    using Cons.prems by (simp_all add: r)
  have tail: "map ?g (map fst l) = map (\<lambda>k. (k, the (map_of l k))) (map fst l)"
    using notin by (intro map_cong) auto
  have head: "?g f = (f, x)"
    by simp
  have "map ?g (map fst ((f, x) # l)) = ?g f # map ?g (map fst l)"
    by (simp only: list.map fst_conv)
  also have "\<dots> = (f, x) # map (\<lambda>k. (k, the (map_of l k))) (map fst l)"
    by (simp only: head tail)
  also have "\<dots> = (f, x) # l"
    by (simp only: Cons.IH [OF dist, symmetric])
  finally have "map ?g (map fst ((f, x) # l)) = (f, x) # l" .
  then show ?case
    unfolding r by (rule sym)
qed

text \<open>
  C7. Upserting keeps the field names of BID_INFO unique: from a table whose fields are
  distinct, any mapping leaves them distinct. The table after the upsert is given row by
  row: the rows of the old fields in their order, then one row for each new field in the
  order in which the mapping first names it, each field with the value the mapping gives
  it last, and with its old value when the mapping does not name it. Upserting one field
  replaces the value in its row when the field is there and appends a row otherwise, so
  upserting the same field twice leaves one row for it, with the second value.
\<close>

theorem upsert_keeps_fields_unique:
  assumes "distinct (map fst df)"
  shows "distinct (map fst (upsert_bid_info df mapping))
       \<and> upsert_bid_info df mapping
           = map (\<lambda>k. (k, the (case map_of (rev mapping) k of
                                  Some v \<Rightarrow> Some v | None \<Rightarrow> map_of df k)))
                 (map fst df @ filter (\<lambda>k. k \<notin> fst ` set df)
                                      (rev (remdups (rev (map fst mapping)))))
       \<and> map_of (upsert_bid_info df mapping) k
           = (case map_of (rev mapping) k of Some v \<Rightarrow> Some v | None \<Rightarrow> map_of df k)
       \<and> upsert_bid_info df [(k, v)]
           = (if k \<in> fst ` set df then map (\<lambda>(f, x). if f = k then (f, v) else (f, x)) df
              else df @ [(k, v)])
       \<and> filter (\<lambda>r. fst r = k) (upsert_bid_info (upsert_bid_info df [(k, v)]) [(k, v')])
           = [(k, v')]"
proof (intro conjI)
  show d: "distinct (map fst (upsert_bid_info df mapping))"
    unfolding upsert_bid_info_fold using assms by (rule distinct_fold_upsert)
  have "upsert_bid_info df mapping
          = map (\<lambda>k. (k, the (map_of (upsert_bid_info df mapping) k)))
                (map fst (upsert_bid_info df mapping))"
    using d by (rule rows_from_fields)
  then show "upsert_bid_info df mapping
          = map (\<lambda>k. (k, the (case map_of (rev mapping) k of
                                 Some v \<Rightarrow> Some v | None \<Rightarrow> map_of df k)))
                (map fst df @ filter (\<lambda>k. k \<notin> fst ` set df)
                                     (rev (remdups (rev (map fst mapping)))))"
    unfolding map_of_upsert_bid_info fields_upsert_bid_info .
  show "map_of (upsert_bid_info df mapping) k
          = (case map_of (rev mapping) k of Some v \<Rightarrow> Some v | None \<Rightarrow> map_of df k)"
    by (rule map_of_upsert_bid_info)
  show "upsert_bid_info df [(k, v)]
          = (if k \<in> fst ` set df then map (\<lambda>(f, x). if f = k then (f, v) else (f, x)) df
             else df @ [(k, v)])"
    by (simp add: upsert_bid_info_fold upsert_row_def)
  have "distinct (map fst (upsert_row k v df))"
    using assms by (rule distinct_upsert_row)
  then show "filter (\<lambda>r. fst r = k) (upsert_bid_info (upsert_bid_info df [(k, v)]) [(k, v')])
               = [(k, v')]"
    by (simp add: upsert_bid_info_fold filter_upsert_row_same)
qed

theorem upsert_keeps_fields_unique_witness:
  "distinct (map fst (upsert_bid_info [(''Bidder'', ''A''), (''Capacity'', ''250'')]
                        [(''Capacity'', ''300''), (''Owner'', ''X'')]))
   \<and> upsert_bid_info [(''Bidder'', ''A''), (''Capacity'', ''250'')]
        [(''Capacity'', ''300''), (''Owner'', ''X'')]
       = [(''Bidder'', ''A''), (''Capacity'', ''300''), (''Owner'', ''X'')]
   \<and> map_of (upsert_bid_info [(''Bidder'', ''A''), (''Capacity'', ''250'')]
                [(''Capacity'', ''300''), (''Owner'', ''X'')]) ''Capacity'' = Some ''300''
   \<and> upsert_bid_info [(''Bidder'', ''A''), (''Capacity'', ''250'')] [(''Capacity'', ''300'')]
       = [(''Bidder'', ''A''), (''Capacity'', ''300'')]
   \<and> upsert_bid_info [(''Bidder'', ''A''), (''Capacity'', ''250'')] [(''Owner'', ''X'')]
       = [(''Bidder'', ''A''), (''Capacity'', ''250''), (''Owner'', ''X'')]
   \<and> filter (\<lambda>r. fst r = ''Capacity'')
         (upsert_bid_info (upsert_bid_info [(''Bidder'', ''A''), (''Capacity'', ''250'')]
                             [(''Capacity'', ''300'')]) [(''Capacity'', ''400'')])
       = [(''Capacity'', ''400'')]"
proof -
  let ?df = "[(''Bidder'', ''A''), (''Capacity'', ''250'')]"
  let ?mapping = "[(''Capacity'', ''300''), (''Owner'', ''X'')]"
  have d: "distinct (map fst ?df)"
    by simp
  have rows: "map (\<lambda>k. (k, the (case map_of (rev ?mapping) k of
                                   Some v \<Rightarrow> Some v | None \<Rightarrow> map_of ?df k)))
                (map fst ?df @ filter (\<lambda>k. k \<notin> fst ` set ?df)
                                      (rev (remdups (rev (map fst ?mapping)))))
              = [(''Bidder'', ''A''), (''Capacity'', ''300''), (''Owner'', ''X'')]"
    by code_simp
  have look: "(case map_of (rev ?mapping) ''Capacity'' of
                 Some v \<Rightarrow> Some v | None \<Rightarrow> map_of ?df ''Capacity'') = Some ''300''"
    by code_simp
  have a: "(if ''Capacity'' \<in> fst ` set ?df
            then map (\<lambda>(f, x). if f = ''Capacity'' then (f, ''300'') else (f, x)) ?df
            else ?df @ [(''Capacity'', ''300'')]) = [(''Bidder'', ''A''), (''Capacity'', ''300'')]"
    by simp
  have b: "(if ''Owner'' \<in> fst ` set ?df
            then map (\<lambda>(f, x). if f = ''Owner'' then (f, ''X'') else (f, x)) ?df
            else ?df @ [(''Owner'', ''X'')])
           = [(''Bidder'', ''A''), (''Capacity'', ''250''), (''Owner'', ''X'')]"
    by simp
  note i1 = upsert_keeps_fields_unique [OF d, of ?mapping "''Capacity''" "''300''" "''400''"]
  note i2 = upsert_keeps_fields_unique [OF d, of "[]" "''Owner''" "''X''" "''Y''"]
  show ?thesis
    using i1 [THEN conjunct1]
      i1 [THEN conjunct2, THEN conjunct1, unfolded rows]
      i1 [THEN conjunct2, THEN conjunct2, THEN conjunct1, unfolded look]
      i1 [THEN conjunct2, THEN conjunct2, THEN conjunct2, THEN conjunct1, unfolded a]
      i2 [THEN conjunct2, THEN conjunct2, THEN conjunct2, THEN conjunct1, unfolded b]
      i1 [THEN conjunct2, THEN conjunct2, THEN conjunct2, THEN conjunct2]
    by (intro conjI)
qed

section \<open>Header fields\<close>

lemma header_loop_append:
  "header_loop re pages (a @ b) vals =
     (case header_loop re pages a vals of Inl e \<Rightarrow> Inl e | Inr v \<Rightarrow> header_loop re pages b v)"
  by (induction a arbitrary: vals) (auto split: sum.splits option.splits)

lemma group_one: "groups m = g # gs \<Longrightarrow> group_of m (Suc 0) = Inr g"
  by (simp add: group_of_def)

lemma group_one_missing: "groups m = [] \<Longrightarrow> group_of m (Suc 0) = Inl IndexError"
  by (simp add: group_of_def)

text \<open>
  C8. Header extraction keeps its contract only for patterns with a group. Let the
  fields before \<open>field\<close> be extracted as \<open>vals\<close> and let the search for its pattern
  return \<open>h\<close>. With no match the field is set to the empty string; with a match that
  has a first group, to that group cleaned; with a match of a pattern without groups,
  \<open>m.group(1)\<close> raises IndexError and the error leaves \<open>main\<close>, whatever fields and
  defaults follow.
\<close>

theorem header_needs_group_one:
  assumes "header_loop re pages before [] = Inr vals"
    and "find_first re pattern pages (IGNORECASE OR DOTALL OR MULTILINE) = Inr h"
  shows "(h = None \<longrightarrow>
            header_loop re pages (before @ [(field, pattern)]) [] = Inr (dict_set field [] vals))
       \<and> (\<forall>pn m g gs. h = Some (pn, m) \<and> groups m = g # gs \<longrightarrow>
            header_loop re pages (before @ [(field, pattern)]) []
              = Inr (dict_set field (clean_text g) vals))
       \<and> (\<forall>pn m. h = Some (pn, m) \<and> groups m = [] \<longrightarrow>
            df_bidinfo re pages (before @ (field, pattern) # rest) defaults = Inl IndexError)"
proof (intro conjI allI impI)
  assume "h = None"
  then show "header_loop re pages (before @ [(field, pattern)]) [] = Inr (dict_set field [] vals)"
    using assms by (simp add: header_loop_append)
next
  fix pn m g gs
  assume "h = Some (pn, m) \<and> groups m = g # gs"
  then show "header_loop re pages (before @ [(field, pattern)]) []
               = Inr (dict_set field (clean_text g) vals)"
    using assms by (simp add: header_loop_append group_one)
next
  fix pn m
  assume "h = Some (pn, m) \<and> groups m = []"
  then have "header_loop re pages (before @ (field, pattern) # rest) [] = Inl IndexError"
    using assms by (simp add: header_loop_append group_one_missing)
  then show "df_bidinfo re pages (before @ (field, pattern) # rest) defaults = Inl IndexError"
    by (simp add: df_bidinfo_def bid_info_values_def)
qed

theorem header_needs_group_one_witness:
  "header_loop ref_re [(1, ''Tender 7: 250 MW'')]
       ([(''Capacity'', capacity_pattern)] @ [(''Date'', date_pattern)]) []
     = Inr (dict_set ''Date'' [] [(''Capacity'', ''250'')])
   \<and> header_loop ref_re [(1, ''Tender 7: 250 MW'')] ([] @ [(''Capacity'', capacity_pattern)]) []
     = Inr (dict_set ''Capacity'' (clean_text (Some ''250'')) [])
   \<and> df_bidinfo ref_re [(1, ''Tender 7: 250 MW'')]
       ([(''Capacity'', capacity_pattern)] @ (''Title'', ''Tender'') # [(''Date'', date_pattern)])
       [(''Title'', ''n/a'')]
     = Inl IndexError"
proof -
  let ?pages = "[(1, ''Tender 7: 250 MW'')] :: page list"
  let ?fl = "IGNORECASE OR DOTALL OR MULTILINE"
  let ?cap = "\<lparr>whole = ''250 MW'', groups = [Some ''250''], groupdict = []\<rparr>"
  let ?ten = "\<lparr>whole = ''Tender'', groups = [], groupdict = []\<rparr>"
  have nil: "header_loop ref_re ?pages [] [] = Inr []"
    by simp
  have one: "header_loop ref_re ?pages [(''Capacity'', capacity_pattern)] [] = Inr [(''Capacity'', ''250'')]"
    by code_simp
  have date: "find_first ref_re date_pattern ?pages ?fl = Inr None"
    by code_simp
  have cap: "find_first ref_re capacity_pattern ?pages ?fl = Inr (Some (1, ?cap))"
    by code_simp
  have ten: "find_first ref_re ''Tender'' ?pages ?fl = Inr (Some (1, ?ten))"
    by code_simp
  have gcap: "Some (1, ?cap) = Some (1, ?cap) \<and> groups ?cap = Some ''250'' # []"
    by simp
  have gten: "Some (1, ?ten) = Some (1, ?ten) \<and> groups ?ten = []"
    by simp
  show ?thesis
    using header_needs_group_one [OF one date, THEN conjunct1, THEN mp, OF refl, of "''Date''"]
      header_needs_group_one [OF nil cap, THEN conjunct2, THEN conjunct1, THEN spec, THEN spec,
        THEN spec, THEN spec, THEN mp, OF gcap, of "''Capacity''"]
      header_needs_group_one [OF one ten, THEN conjunct2, THEN conjunct2, THEN spec, THEN spec,
        THEN mp, OF gten, of "''Title''" "[(''Date'', date_pattern)]" "[(''Title'', ''n/a'')]"]
    by (intro conjI)
qed

text \<open>
  C1. The claim: a default is applied to a header field that is absent and also to one
  extracted as the empty string. The code applies it with \<open>setdefault\<close>, under the
  comment \<open>Apply defaults if empty\<close>: a field of \<open>bid_info_map\<close> whose pattern matches
  nothing is present with the value \<open>""\<close>, and keeps it. Evaluated on a page without a
  capacity figure, with defaults for that field and for a field that has no pattern.
\<close>

theorem default_skipped_for_empty_field:
  "df_bidinfo ref_re [(1, ''No capacity stated'')] [(''Capacity'', capacity_pattern)]
     [(''Capacity'', ''TBD''), (''Owner'', ''X'')]
   = Inr [(''Capacity'', []), (''Owner'', ''X'')]"
  by code_simp

text \<open>
  C6. The claim: a flag name that names no flag adds no bits and raises nothing. That
  holds of a name the module does not have (\<open>bogus\<close> below). A name of another
  attribute of the module, such as \<open>compile\<close>, makes \<open>getattr\<close> return that
  attribute, and \<open>fl |= \<dots>\<close> raises TypeError, which ends the run.
\<close>

theorem non_flag_attribute_raises:
  "run_extractors ref_re [(1, ''250 MW'')]
     [directive None capacity_pattern None (Some [''IGNORECASE'', ''compile''])]
   = Inl TypeError
   \<and> compile_flags ref_re [''IGNORECASE'', ''bogus'', ''DOTALL''] 0 = Inr 18"
  by code_simp

section \<open>Amendment documents\<close>

lemma length_read_pdf:
  "length (read_pdf_text_with_pages src) = (case src of OpenRaises \<Rightarrow> 0 | Opened ps \<Rightarrow> length ps)"
  by (cases src) simp_all

lemma group_of_first: "groups m \<noteq> [] \<Longrightarrow> group_of m (Suc 0) = Inr (hd (groups m))"
  by (cases "groups m") (simp_all add: group_of_def)

lemma amendment_row_fields:
  assumes d: "re_compile re date_pattern IGNORECASE = Inr drx"
    and l: "re_compile re label_pattern IGNORECASE = Inr lrx"
    and dg: "case first_hit drx (read_pdf_text_with_pages (file_src f)) of
               None \<Rightarrow> True | Some (pn, m) \<Rightarrow> groups m \<noteq> []"
    and lg: "case first_hit lrx (read_pdf_text_with_pages (file_src f)) of
               None \<Rightarrow> True | Some (pn, m) \<Rightarrow> groups m \<noteq> []"
  shows "amendment_row re f =
           Inr \<lparr>AmendmentType =
                  (case first_hit lrx (read_pdf_text_with_pages (file_src f)) of
                     None \<Rightarrow> ''Corrigendum/Addendum''
                   | Some (pn, m) \<Rightarrow> clean_text (hd (groups m))),
                FileName = file_name f,
                Date = (case first_hit drx (read_pdf_text_with_pages (file_src f)) of
                          None \<Rightarrow> Some []
                        | Some (pn, m) \<Rightarrow> hd (groups m)),
                AmendNotes = [],
                Pages = (case file_src f of OpenRaises \<Rightarrow> 0 | Opened ps \<Rightarrow> length ps)\<rparr>"
proof -
  let ?pages = "read_pdf_text_with_pages (file_src f)"
  have fd: "find_first re date_pattern ?pages IGNORECASE = Inr (first_hit drx ?pages)"
    by (simp add: find_first_def d)
  have fl: "find_first re label_pattern ?pages IGNORECASE = Inr (first_hit lrx ?pages)"
    by (simp add: find_first_def l)
  have dg': "group_of m (Suc 0) = Inr (hd (groups m))" if "first_hit drx ?pages = Some (pn, m)" for pn m
    using dg that by (simp add: group_of_first)
  have lg': "group_of m (Suc 0) = Inr (hd (groups m))" if "first_hit lrx ?pages = Some (pn, m)" for pn m
    using lg that by (simp add: group_of_first)
  show ?thesis
  proof (cases "first_hit drx ?pages")
    case None
    show ?thesis
    proof (cases "first_hit lrx ?pages")
      case lnone: None
      show ?thesis
        unfolding amendment_row_def Let_def fd fl by (simp add: None lnone length_read_pdf)
    next
      case (Some lh)
      obtain pn2 m2 where lh: "lh = (pn2, m2)"
        by (cases lh)
      show ?thesis
        unfolding amendment_row_def Let_def fd fl
        using lg' [of pn2 m2] by (simp add: None Some lh length_read_pdf)
    qed
  next
    case (Some dh)
    obtain pn m where dh: "dh = (pn, m)"
      by (cases dh)
    show ?thesis
    proof (cases "first_hit lrx ?pages")
      case None
      show ?thesis
        unfolding amendment_row_def Let_def fd fl
        using dg' [of pn m] by (simp add: None Some dh length_read_pdf)
    next
      case lsome: (Some lh)
      obtain pn2 m2 where lh: "lh = (pn2, m2)"
        by (cases lh)
      show ?thesis
        unfolding amendment_row_def Let_def fd fl
        using dg' [of pn m] lg' [of pn2 m2] by (simp add: lsome Some dh lh length_read_pdf)
    qed
  qed
qed

lemma ref_compile_amendment:
  "re_compile ref_re date_pattern IGNORECASE = Inr (ref_pattern_obj True 1 date_tree)"
  "re_compile ref_re label_pattern IGNORECASE = Inr (ref_pattern_obj True 1 label_tree)"
  by (simp_all add: re_compile_ref ref_compile_date ref_compile_label IGNORECASE_def)

lemma append_amendments_map:
  assumes "re_compile re date_pattern IGNORECASE = Inr drx"
    and "re_compile re label_pattern IGNORECASE = Inr lrx"
    and "\<forall>f \<in> set fs. case first_hit drx (read_pdf_text_with_pages (file_src f)) of
                          None \<Rightarrow> True | Some (pn, m) \<Rightarrow> groups m \<noteq> []"
    and "\<forall>f \<in> set fs. case first_hit lrx (read_pdf_text_with_pages (file_src f)) of
                          None \<Rightarrow> True | Some (pn, m) \<Rightarrow> groups m \<noteq> []"
  shows "append_amendments re fs =
           Inr (map (\<lambda>f. \<lparr>AmendmentType =
                             (case first_hit lrx (read_pdf_text_with_pages (file_src f)) of
                                None \<Rightarrow> ''Corrigendum/Addendum''
                              | Some (pn, m) \<Rightarrow> clean_text (hd (groups m))),
                           FileName = file_name f,
                           Date = (case first_hit drx (read_pdf_text_with_pages (file_src f)) of
                                     None \<Rightarrow> Some []
                                   | Some (pn, m) \<Rightarrow> hd (groups m)),
                           AmendNotes = [],
                           Pages = (case file_src f of OpenRaises \<Rightarrow> 0
                                    | Opened ps \<Rightarrow> length ps)\<rparr>) fs)"
  using assms(3,4)
proof (induction fs)
  case Nil
  then show ?case by simp
next
  case (Cons f fs)
  have "amendment_row re f = Inr \<lparr>AmendmentType =
                             (case first_hit lrx (read_pdf_text_with_pages (file_src f)) of
                                None \<Rightarrow> ''Corrigendum/Addendum''
                              | Some (pn, m) \<Rightarrow> clean_text (hd (groups m))),
                           FileName = file_name f,
                           Date = (case first_hit drx (read_pdf_text_with_pages (file_src f)) of
                                     None \<Rightarrow> Some []
                                   | Some (pn, m) \<Rightarrow> hd (groups m)),
                           AmendNotes = [],
                           Pages = (case file_src f of OpenRaises \<Rightarrow> 0
                                    | Opened ps \<Rightarrow> length ps)\<rparr>"
    using assms(1,2) Cons.prems by (intro amendment_row_fields) simp_all
  moreover have "append_amendments re fs = Inr (map (\<lambda>f. \<lparr>AmendmentType =
                             (case first_hit lrx (read_pdf_text_with_pages (file_src f)) of
                                None \<Rightarrow> ''Corrigendum/Addendum''
                              | Some (pn, m) \<Rightarrow> clean_text (hd (groups m))),
                           FileName = file_name f,
                           Date = (case first_hit drx (read_pdf_text_with_pages (file_src f)) of
                                     None \<Rightarrow> Some []
                                   | Some (pn, m) \<Rightarrow> hd (groups m)),
                           AmendNotes = [],
                           Pages = (case file_src f of OpenRaises \<Rightarrow> 0
                                    | Opened ps \<Rightarrow> length ps)\<rparr>) fs)"
    using Cons.prems by (intro Cons.IH) simp_all
  ultimately show ?case
    by simp
qed

lemma clean_text_Addendum: "clean_text (Some ''Addendum'') = ''Addendum''"
  by code_simp

text \<open>
  C2, as the code has it. Let the two patterns of \<open>append_amendments\<close> compile and let
  their matches in the documents have a first group. Then every document gets one
  record, in the order of the documents: its type is the first label found, cleaned and
  as the document writes it, and the fixed label \<open>Corrigendum/Addendum\<close> when none is
  found; its date is the first date-like token, and the empty string when none is found;
  its file name is the base name of the document; its page count is the number of pages
  of the document (none when the document cannot be opened). In particular a document in
  which the first label found reads \<open>Addendum\<close> and the first date-like token is
  \<open>12/05/2024\<close> gets the type \<open>Addendum\<close> and the date \<open>12/05/2024\<close>.
\<close>

theorem append_amendments_rows:
  assumes "re_compile re date_pattern IGNORECASE = Inr drx"
    and "re_compile re label_pattern IGNORECASE = Inr lrx"
    and "\<forall>f \<in> set fs. case first_hit drx (read_pdf_text_with_pages (file_src f)) of
                          None \<Rightarrow> True | Some (pn, m) \<Rightarrow> groups m \<noteq> []"
    and "\<forall>f \<in> set fs. case first_hit lrx (read_pdf_text_with_pages (file_src f)) of
                          None \<Rightarrow> True | Some (pn, m) \<Rightarrow> groups m \<noteq> []"
  shows "append_amendments re fs =
           Inr (map (\<lambda>f. \<lparr>AmendmentType =
                             (case first_hit lrx (read_pdf_text_with_pages (file_src f)) of
                                None \<Rightarrow> ''Corrigendum/Addendum''
                              | Some (pn, m) \<Rightarrow> clean_text (hd (groups m))),
                           FileName = file_name f,
                           Date = (case first_hit drx (read_pdf_text_with_pages (file_src f)) of
                                     None \<Rightarrow> Some []
                                   | Some (pn, m) \<Rightarrow> hd (groups m)),
                           AmendNotes = [],
                           Pages = (case file_src f of OpenRaises \<Rightarrow> 0
                                    | Opened ps \<Rightarrow> length ps)\<rparr>) fs)
       \<and> (\<forall>f \<in> set fs. \<forall>pn m pn' m'.
             first_hit lrx (read_pdf_text_with_pages (file_src f)) = Some (pn, m)
               \<and> hd (groups m) = Some ''Addendum''
               \<and> first_hit drx (read_pdf_text_with_pages (file_src f)) = Some (pn', m')
               \<and> hd (groups m') = Some ''12/05/2024''
             \<longrightarrow> (\<exists>r. amendment_row re f = Inr r \<and> AmendmentType r = ''Addendum''
                       \<and> Date r = Some ''12/05/2024''))"
proof (intro conjI ballI allI impI)
  show "append_amendments re fs =
           Inr (map (\<lambda>f. \<lparr>AmendmentType =
                             (case first_hit lrx (read_pdf_text_with_pages (file_src f)) of
                                None \<Rightarrow> ''Corrigendum/Addendum''
                              | Some (pn, m) \<Rightarrow> clean_text (hd (groups m))),
                           FileName = file_name f,
                           Date = (case first_hit drx (read_pdf_text_with_pages (file_src f)) of
                                     None \<Rightarrow> Some []
                                   | Some (pn, m) \<Rightarrow> hd (groups m)),
                           AmendNotes = [],
                           Pages = (case file_src f of OpenRaises \<Rightarrow> 0
                                    | Opened ps \<Rightarrow> length ps)\<rparr>) fs)"
    using assms by (rule append_amendments_map)
next
  fix f pn m pn' m'
  assume f: "f \<in> set fs"
    and hits: "first_hit lrx (read_pdf_text_with_pages (file_src f)) = Some (pn, m)
               \<and> hd (groups m) = Some ''Addendum''
               \<and> first_hit drx (read_pdf_text_with_pages (file_src f)) = Some (pn', m')
               \<and> hd (groups m') = Some ''12/05/2024''"
  let ?pages = "read_pdf_text_with_pages (file_src f)"
  have dg: "case first_hit drx ?pages of None \<Rightarrow> True | Some (pn, m) \<Rightarrow> groups m \<noteq> []"
    using assms(3) f by (rule bspec)
  have lg: "case first_hit lrx ?pages of None \<Rightarrow> True | Some (pn, m) \<Rightarrow> groups m \<noteq> []"
    using assms(4) f by (rule bspec)
  note row = amendment_row_fields [OF assms(1,2) dg lg]
  have "AmendmentType \<lparr>AmendmentType =
                             (case first_hit lrx ?pages of
                                None \<Rightarrow> ''Corrigendum/Addendum''
                              | Some (pn, m) \<Rightarrow> clean_text (hd (groups m))),
                           FileName = file_name f,
                           Date = (case first_hit drx ?pages of
                                     None \<Rightarrow> Some []
                                   | Some (pn, m) \<Rightarrow> hd (groups m)),
                           AmendNotes = [],
                           Pages = (case file_src f of OpenRaises \<Rightarrow> 0
                                    | Opened ps \<Rightarrow> length ps)\<rparr> = ''Addendum''"
    using hits by (simp add: clean_text_Addendum del: clean_text.simps)
  moreover have "Date \<lparr>AmendmentType =
                             (case first_hit lrx ?pages of
                                None \<Rightarrow> ''Corrigendum/Addendum''
                              | Some (pn, m) \<Rightarrow> clean_text (hd (groups m))),
                           FileName = file_name f,
                           Date = (case first_hit drx ?pages of
                                     None \<Rightarrow> Some []
                                   | Some (pn, m) \<Rightarrow> hd (groups m)),
                           AmendNotes = [],
                           Pages = (case file_src f of OpenRaises \<Rightarrow> 0
                                    | Opened ps \<Rightarrow> length ps)\<rparr> = Some ''12/05/2024''"
    using hits by simp
  ultimately show "\<exists>r. amendment_row re f = Inr r \<and> AmendmentType r = ''Addendum''
                     \<and> Date r = Some ''12/05/2024''"
    using row by (intro exI conjI)
qed

theorem append_amendments_rows_witness:
  "append_amendments ref_re
     [\<lparr>file_name = ''add2.pdf'',
       file_src = Opened [Extracted (Some ''Addendum No. 2 dated 12/05/2024''), ExtractRaises]\<rparr>]
   = Inr [\<lparr>AmendmentType = ''Addendum'', FileName = ''add2.pdf'', Date = Some ''12/05/2024'',
           AmendNotes = [], Pages = 2\<rparr>]
   \<and> (\<exists>r. amendment_row ref_re
              \<lparr>file_name = ''add2.pdf'',
               file_src = Opened [Extracted (Some ''Addendum No. 2 dated 12/05/2024''),
                                  ExtractRaises]\<rparr> = Inr r
          \<and> AmendmentType r = ''Addendum'' \<and> Date r = Some ''12/05/2024'')"
proof -
  let ?f = "\<lparr>file_name = ''add2.pdf'',
              file_src = Opened [Extracted (Some ''Addendum No. 2 dated 12/05/2024''),
                                 ExtractRaises]\<rparr>"
  let ?drx = "ref_pattern_obj True 1 date_tree"
  let ?lrx = "ref_pattern_obj True 1 label_tree"
  let ?lm = "\<lparr>whole = ''Addendum'', groups = [Some ''Addendum''], groupdict = []\<rparr>"
  let ?dm = "\<lparr>whole = ''12/05/2024'', groups = [Some ''12/05/2024''], groupdict = []\<rparr>"
  have dg: "\<forall>f \<in> set [?f]. case first_hit ?drx (read_pdf_text_with_pages (file_src f)) of
                             None \<Rightarrow> True | Some (pn, m) \<Rightarrow> groups m \<noteq> []"
    by code_simp
  have lg: "\<forall>f \<in> set [?f]. case first_hit ?lrx (read_pdf_text_with_pages (file_src f)) of
                             None \<Rightarrow> True | Some (pn, m) \<Rightarrow> groups m \<noteq> []"
    by code_simp
  have rows: "map (\<lambda>f. \<lparr>AmendmentType =
                             (case first_hit ?lrx (read_pdf_text_with_pages (file_src f)) of
                                None \<Rightarrow> ''Corrigendum/Addendum''
                              | Some (pn, m) \<Rightarrow> clean_text (hd (groups m))),
                           FileName = file_name f,
                           Date = (case first_hit ?drx (read_pdf_text_with_pages (file_src f)) of
                                     None \<Rightarrow> Some []
                                   | Some (pn, m) \<Rightarrow> hd (groups m)),
                           AmendNotes = [],
                           Pages = (case file_src f of OpenRaises \<Rightarrow> 0
                                    | Opened ps \<Rightarrow> length ps)\<rparr>) [?f]
      = [\<lparr>AmendmentType = ''Addendum'', FileName = ''add2.pdf'', Date = Some ''12/05/2024'',
          AmendNotes = [], Pages = 2\<rparr>]"
    by code_simp
  have mem: "?f \<in> set [?f]"
    by simp
  have lhit: "first_hit ?lrx (read_pdf_text_with_pages (file_src ?f)) = Some (1, ?lm)"
    by code_simp
  have dhit: "first_hit ?drx (read_pdf_text_with_pages (file_src ?f)) = Some (1, ?dm)"
    by code_simp
  have lgrp: "hd (groups ?lm) = Some ''Addendum''" and dgrp: "hd (groups ?dm) = Some ''12/05/2024''"
    by simp_all
  note inst = append_amendments_rows [OF ref_compile_amendment dg lg]
  show ?thesis
    using inst [THEN conjunct1, unfolded rows]
      inst [THEN conjunct2, THEN bspec, OF mem, THEN spec, THEN spec, THEN spec, THEN spec,
            THEN mp, OF conjI [OF lhit conjI [OF lgrp conjI [OF dhit dgrp]]]]
    by (rule conjI)
qed

text \<open>
  C2, as it is stated, asks for the empty string as type when no label is found, and for
  the type \<open>Addendum\<close> and the date \<open>12/05/2024\<close> of any document that contains the
  label in any case and that token. Three documents: one without any label gets the type
  \<open>Corrigendum/Addendum\<close>; one that writes \<open>ADDENDUM\<close> gets the type as written; one
  with another label and another date before them gets those.
\<close>

theorem amendment_label_counterexample:
  "map_sum id (map (\<lambda>r. (AmendmentType r, Date r)))
     (append_amendments ref_re
        [\<lparr>file_name = ''notice.pdf'', file_src = Opened [Extracted (Some ''Notice of 12/05/2024'')]\<rparr>,
         \<lparr>file_name = ''upper.pdf'',
          file_src = Opened [Extracted (Some ''ADDENDUM No. 2 dated 12/05/2024'')]\<rparr>,
         \<lparr>file_name = ''later.pdf'',
          file_src = Opened [Extracted (Some ''Ref 1/2/24: Amendment to Addendum 1 of 12/05/2024'')]\<rparr>])
   = Inr [(''Corrigendum/Addendum'', Some ''12/05/2024''),
          (''ADDENDUM'', Some ''12/05/2024''),
          (''Amendment'', Some ''1/2/24'')]
   \<and> ''Corrigendum/Addendum'' \<noteq> ''''
   \<and> ''ADDENDUM'' \<noteq> ''Addendum''
   \<and> ''Amendment'' \<noteq> ''Addendum''
   \<and> ''1/2/24'' \<noteq> ''12/05/2024''"
  by code_simp

end
